theory Spec2Isabelle
  imports Complex_Main "HOL-Library.Sublist"
begin

section \<open>The host scene\<close>

text \<open>
  The script \<^verbatim>\<open>render_node_locations.py\<close> drives a host application through its scripting
  interface. The host is modelled as an explicit state: a store of scene objects addressed
  by identity, the collections (each the sequence of object identities that the host's
  \<^verbatim>\<open>all_objects\<close> traversal yields), the scene's active camera, the scene's render
  file path and the file system the renderer writes to. The field \<open>events\<close> records, in
  order, every property write and every render invocation the script performs.
\<close>

type_synonym vec = "real \<times> real \<times> real"

record obj =
  name :: string
  location :: vec
  rotation_euler :: "real list"

text \<open>
  The value of \<^verbatim>\<open>obj.location\<close> is a vector owned by the object it was read from: it is
  a view of that object's position, read when it is used.
\<close>

datatype vector = LocationOf nat

datatype event =
    SetLocation vector
  | SetRotation "real list"
  | SetFilepath string
  | Render string

type_synonym image = "vec \<times> real list"

record host =
  objects :: "nat \<Rightarrow> obj"
  collections :: "string \<rightharpoonup> nat list"
  camera :: "nat option"
  filepath :: string
  files :: "string \<rightharpoonup> image"
  events :: "event list"

datatype error = KeyError | AttributeError | RuntimeError

text \<open>A statement either completes in a state or raises in the state it had reached.\<close>

datatype outcome = Done host | Raised error host

fun state_of :: "outcome \<Rightarrow> host" where
  "state_of (Done s) = s"
| "state_of (Raised e s) = s"

fun completed :: "outcome \<Rightarrow> bool" where
  "completed (Done s) = True"
| "completed (Raised e s) = False"

fun fault :: "outcome \<Rightarrow> error option" where
  "fault (Done s) = None"
| "fault (Raised e s) = Some e"

definition deref :: "host \<Rightarrow> vector \<Rightarrow> vec" where
  "deref s v = (case v of LocationOf i \<Rightarrow> location (objects s i))"

text \<open>
  \<^verbatim>\<open>CAMERA.location = v\<close>: the components of \<open>v\<close> are copied into the camera object.
  With no active camera \<^verbatim>\<open>CAMERA\<close> is \<^verbatim>\<open>None\<close> and the attribute write raises.
\<close>

definition set_location :: "nat option \<Rightarrow> vector \<Rightarrow> host \<Rightarrow> outcome" where
  "set_location cam v s =
     (case cam of
        None \<Rightarrow> Raised AttributeError s
      | Some c \<Rightarrow>
          Done (s\<lparr>objects := (objects s)(c := (objects s c)\<lparr>location := deref s v\<rparr>),
                  events := events s @ [SetLocation v]\<rparr>))"

text \<open>\<^verbatim>\<open>CAMERA.rotation_euler = v\<close>\<close>

definition set_rotation :: "nat option \<Rightarrow> real list \<Rightarrow> host \<Rightarrow> outcome" where
  "set_rotation cam v s =
     (case cam of
        None \<Rightarrow> Raised AttributeError s
      | Some c \<Rightarrow>
          Done (s\<lparr>objects := (objects s)(c := (objects s c)\<lparr>rotation_euler := v\<rparr>),
                  events := events s @ [SetRotation v]\<rparr>))"

text \<open>\<^verbatim>\<open>SCENE.render.filepath = p\<close>\<close>

definition set_filepath :: "string \<Rightarrow> host \<Rightarrow> host" where
  "set_filepath p s = s\<lparr>filepath := p, events := events s @ [SetFilepath p]\<rparr>"

text \<open>
  \<^verbatim>\<open>bpy.ops.render.render(write_still=True)\<close>: the host renders the view of the scene's
  active camera and writes it to the scene's render file path, replacing whatever is there.
  Whether the host succeeds is not decided by the script: the predicate \<open>ok\<close> tells, for
  the state in which the operator is invoked, whether it does. Without an active camera
  the operator fails. A failed invocation writes nothing.
\<close>

definition render :: "(host \<Rightarrow> bool) \<Rightarrow> host \<Rightarrow> outcome" where
  "render ok s =
     (let s' = s\<lparr>events := events s @ [Render (filepath s)]\<rparr> in
      case camera s of
        None \<Rightarrow> Raised RuntimeError s'
      | Some c \<Rightarrow>
          if ok s
          then Done (s'\<lparr>files := (files s)(filepath s \<mapsto>
                          (location (objects s c), rotation_euler (objects s c)))\<rparr>)
          else Raised RuntimeError s')"

section \<open>Formatting\<close>

text \<open>The decimal text of an integer, as an f-string writes it.\<close>

function str_nat :: "nat \<Rightarrow> string" where
  "str_nat n =
     (if n < 10 then [''0123456789'' ! n]
      else str_nat (n div 10) @ [''0123456789'' ! (n mod 10)])"
  by pat_completeness auto
termination
  by (relation "measure id") auto

declare str_nat.simps [simp del]

definition str_int :: "int \<Rightarrow> string" where
  "str_int i = (if i < 0 then CHR ''-'' # str_nat (nat (- i)) else str_nat (nat i))"

section \<open>The script\<close>

definition NODE_COLLECTION :: string where
  "NODE_COLLECTION = ''FPV_nodes''"

text \<open>\<^verbatim>\<open>math.radians\<close>\<close>

definition radians :: "real \<Rightarrow> real" where
  "radians d = d * pi / 180"

definition ROTATION_ANGLES :: "(int \<times> real list) list" where
  "ROTATION_ANGLES =
     [(0, [radians 90, radians 0, radians 0]),
      (45, [radians 90, radians 0, radians (- 45)]),
      (90, [radians 90, radians 0, radians (- 90)]),
      (135, [radians 90, radians 0, radians (- 135)]),
      (180, [radians 90, radians 0, radians (- 180)]),
      (225, [radians 90, radians 0, radians (- 225)]),
      (270, [radians 90, radians 0, radians (- 270)]),
      (315, [radians 90, radians 0, radians (- 315)])]"

text \<open>A node dictionary \<^verbatim>\<open>{"node": obj.name, "loc": obj.location}\<close>.\<close>

type_synonym node = "string \<times> vector"

fun append_nodes :: "host \<Rightarrow> nat list \<Rightarrow> node list \<Rightarrow> node list" where
  "append_nodes s [] node_locations = node_locations"
| "append_nodes s (i # is) node_locations =
     append_nodes s is (node_locations @ [(name (objects s i), LocationOf i)])"

definition get_node_locations :: "host \<Rightarrow> error + node list" where
  "get_node_locations s =
     (case collections s NODE_COLLECTION of
        None \<Rightarrow> Inl KeyError
      | Some all_objects \<Rightarrow> Inr (append_nodes s all_objects []))"

definition output_file :: "string \<Rightarrow> int \<Rightarrow> string" where
  "output_file node_name k = node_name @ ''__angle_'' @ str_int k @ ''.png''"

text \<open>
  The inner loop of \<^verbatim>\<open>render_node_angles\<close> over the items of the angle table.
  \<open>path_join out f\<close> stands for \<^verbatim>\<open>str(Path(out, f))\<close> of the platform's path library;
  \<open>cam\<close> and \<open>out\<close> are the module constants \<^verbatim>\<open>CAMERA\<close> and \<^verbatim>\<open>OUTPUT_DIR\<close>.
\<close>

fun angle_loop ::
  "(string \<Rightarrow> string \<Rightarrow> string) \<Rightarrow> (host \<Rightarrow> bool) \<Rightarrow> nat option \<Rightarrow> string \<Rightarrow>
   string \<Rightarrow> (int \<times> real list) list \<Rightarrow> host \<Rightarrow> outcome" where
  "angle_loop path_join ok cam out node_name [] s = Done s"
| "angle_loop path_join ok cam out node_name ((k, v) # items) s =
     (case set_rotation cam v s of
        Raised e s' \<Rightarrow> Raised e s'
      | Done s1 \<Rightarrow>
          (case render ok (set_filepath (path_join out (output_file node_name k)) s1) of
             Raised e s' \<Rightarrow> Raised e s'
           | Done s2 \<Rightarrow> angle_loop path_join ok cam out node_name items s2))"

fun node_loop ::
  "(string \<Rightarrow> string \<Rightarrow> string) \<Rightarrow> (host \<Rightarrow> bool) \<Rightarrow> nat option \<Rightarrow> string \<Rightarrow>
   (int \<times> real list) list \<Rightarrow> node list \<Rightarrow> host \<Rightarrow> outcome" where
  "node_loop path_join ok cam out table [] s = Done s"
| "node_loop path_join ok cam out table ((node_name, loc) # nodes) s =
     (case set_location cam loc s of
        Raised e s' \<Rightarrow> Raised e s'
      | Done s1 \<Rightarrow>
          (case angle_loop path_join ok cam out node_name table s1 of
             Raised e s' \<Rightarrow> Raised e s'
           | Done s2 \<Rightarrow> node_loop path_join ok cam out table nodes s2))"

definition render_node_angles ::
  "(string \<Rightarrow> string \<Rightarrow> string) \<Rightarrow> (host \<Rightarrow> bool) \<Rightarrow> nat option \<Rightarrow> string \<Rightarrow>
   node list \<Rightarrow> host \<Rightarrow> outcome" where
  "render_node_angles path_join ok cam out nodes s =
     node_loop path_join ok cam out ROTATION_ANGLES nodes s"

definition run ::
  "(string \<Rightarrow> string \<Rightarrow> string) \<Rightarrow> (host \<Rightarrow> bool) \<Rightarrow> nat option \<Rightarrow> string \<Rightarrow>
   host \<Rightarrow> outcome" where
  "run path_join ok cam out s =
     (case get_node_locations s of
        Inl e \<Rightarrow> Raised e s
      | Inr nodes \<Rightarrow>
          (case render_node_angles path_join ok cam out nodes s of
             Raised e s' \<Rightarrow> Raised e s'
           | Done s' \<Rightarrow> Done (set_filepath out s')))"

text \<open>
  Loading the module binds \<^verbatim>\<open>CAMERA\<close> and \<^verbatim>\<open>OUTPUT_DIR\<close> from the scene as it is at
  that moment, then calls \<^verbatim>\<open>run()\<close>.
\<close>

definition script ::
  "(string \<Rightarrow> string \<Rightarrow> string) \<Rightarrow> (host \<Rightarrow> bool) \<Rightarrow> host \<Rightarrow> outcome" where
  "script path_join ok s = run path_join ok (camera s) (filepath s) s"

section \<open>The expected sequence of events\<close>

text \<open>
  What the render driver is specified to do, written as the list of events of a complete
  pass: markers outermost, one position write per marker, then for every entry of the
  angle table a rotation write, a file-path write and a render.
\<close>

definition angle_events ::
  "(string \<Rightarrow> string \<Rightarrow> string) \<Rightarrow> string \<Rightarrow> string \<Rightarrow> (int \<times> real list) list \<Rightarrow> event list" where
  "angle_events path_join out node_name table =
     concat (map (\<lambda>(k, v). [SetRotation v,
                            SetFilepath (path_join out (output_file node_name k)),
                            Render (path_join out (output_file node_name k))]) table)"

definition node_events ::
  "(string \<Rightarrow> string \<Rightarrow> string) \<Rightarrow> string \<Rightarrow> (int \<times> real list) list \<Rightarrow> node list \<Rightarrow> event list" where
  "node_events path_join out table nodes =
     concat (map (\<lambda>(node_name, loc).
                    SetLocation loc # angle_events path_join out node_name table) nodes)"

fun render_paths :: "event list \<Rightarrow> string list" where
  "render_paths [] = []"
| "render_paths (Render p # es) = p # render_paths es"
| "render_paths (e # es) = render_paths es"

fun filepath_writes :: "event list \<Rightarrow> string list" where
  "filepath_writes [] = []"
| "filepath_writes (SetFilepath p # es) = p # filepath_writes es"
| "filepath_writes (e # es) = filepath_writes es"

text \<open>The paths of a complete pass, marker-major.\<close>

definition output_paths ::
  "(string \<Rightarrow> string \<Rightarrow> string) \<Rightarrow> string \<Rightarrow> (int \<times> real list) list \<Rightarrow> node list \<Rightarrow> string list" where
  "output_paths path_join out table nodes =
     concat (map (\<lambda>(node_name, loc).
                    map (\<lambda>(k, v). path_join out (output_file node_name k)) table) nodes)"

text \<open>What the enumerator is specified to return for a collection's objects.\<close>

definition nodes_of :: "host \<Rightarrow> nat list \<Rightarrow> node list" where
  "nodes_of s ids = map (\<lambda>i. (name (objects s i), LocationOf i)) ids"

text \<open>The events a run has added to those recorded in \<open>s\<close>.\<close>

definition new_events :: "host \<Rightarrow> host \<Rightarrow> event list" where
  "new_events s s' = drop (length (events s)) (events s')"

fun is_location_write :: "event \<Rightarrow> bool" where
  "is_location_write (SetLocation l) = True"
| "is_location_write e = False"

fun is_rotation_write :: "event \<Rightarrow> bool" where
  "is_rotation_write (SetRotation v) = True"
| "is_rotation_write e = False"

section \<open>The render invocations of a run\<close>

text \<open>
  The states a run passes through as long as no render fails: the state after each
  property write, after a render that succeeds, and the state a render that fails leaves.
  \<open>c\<close> is the active camera.
\<close>

definition located :: "nat \<Rightarrow> vector \<Rightarrow> host \<Rightarrow> host" where
  "located c v s =
     s\<lparr>objects := (objects s)(c := (objects s c)\<lparr>location := deref s v\<rparr>),
       events := events s @ [SetLocation v]\<rparr>"

definition rotated :: "nat \<Rightarrow> real list \<Rightarrow> host \<Rightarrow> host" where
  "rotated c v s =
     s\<lparr>objects := (objects s)(c := (objects s c)\<lparr>rotation_euler := v\<rparr>),
       events := events s @ [SetRotation v]\<rparr>"

definition rendered :: "nat \<Rightarrow> host \<Rightarrow> host" where
  "rendered c s =
     s\<lparr>events := events s @ [Render (filepath s)],
       files := (files s)(filepath s \<mapsto>
                  (location (objects s c), rotation_euler (objects s c)))\<rparr>"

definition failed :: "host \<Rightarrow> host" where
  "failed s = s\<lparr>events := events s @ [Render (filepath s)]\<rparr>"

text \<open>
  The states in which the renderer is invoked, in order, when every earlier invocation
  has succeeded; and the state after a pass in which all of them succeed.
\<close>

fun angle_renders ::
  "(string \<Rightarrow> string \<Rightarrow> string) \<Rightarrow> nat \<Rightarrow> string \<Rightarrow> string \<Rightarrow>
   (int \<times> real list) list \<Rightarrow> host \<Rightarrow> host list" where
  "angle_renders path_join c out node_name [] s = []"
| "angle_renders path_join c out node_name ((k, v) # items) s =
     set_filepath (path_join out (output_file node_name k)) (rotated c v s) #
     angle_renders path_join c out node_name items
       (rendered c (set_filepath (path_join out (output_file node_name k)) (rotated c v s)))"

fun angle_after ::
  "(string \<Rightarrow> string \<Rightarrow> string) \<Rightarrow> nat \<Rightarrow> string \<Rightarrow> string \<Rightarrow>
   (int \<times> real list) list \<Rightarrow> host \<Rightarrow> host" where
  "angle_after path_join c out node_name [] s = s"
| "angle_after path_join c out node_name ((k, v) # items) s =
     angle_after path_join c out node_name items
       (rendered c (set_filepath (path_join out (output_file node_name k)) (rotated c v s)))"

fun node_renders ::
  "(string \<Rightarrow> string \<Rightarrow> string) \<Rightarrow> nat \<Rightarrow> string \<Rightarrow>
   (int \<times> real list) list \<Rightarrow> node list \<Rightarrow> host \<Rightarrow> host list" where
  "node_renders path_join c out table [] s = []"
| "node_renders path_join c out table ((node_name, loc) # nodes) s =
     angle_renders path_join c out node_name table (located c loc s) @
     node_renders path_join c out table nodes
       (angle_after path_join c out node_name table (located c loc s))"

fun node_after ::
  "(string \<Rightarrow> string \<Rightarrow> string) \<Rightarrow> nat \<Rightarrow> string \<Rightarrow>
   (int \<times> real list) list \<Rightarrow> node list \<Rightarrow> host \<Rightarrow> host" where
  "node_after path_join c out table [] s = s"
| "node_after path_join c out table ((node_name, loc) # nodes) s =
     node_after path_join c out table nodes
       (angle_after path_join c out node_name table (located c loc s))"

text \<open>The render invocations of the script on a scene whose \<^verbatim>\<open>FPV_nodes\<close> holds \<open>ids\<close>.\<close>

definition render_invocations ::
  "(string \<Rightarrow> string \<Rightarrow> string) \<Rightarrow> nat \<Rightarrow> nat list \<Rightarrow> host \<Rightarrow> host list" where
  "render_invocations path_join c ids s =
     node_renders path_join c (filepath s) ROTATION_ANGLES (nodes_of s ids) s"

section \<open>Example scenes\<close>

text \<open>
  Concrete hosts on which the script is run below. \<open>join_slash\<close> is the path join for a
  base directory without a trailing separator and a relative file name; \<open>always_ok\<close> is
  a renderer that never fails; \<open>fails_at p\<close> is one that fails when asked to write \<open>p\<close>.
\<close>

definition join_slash :: "string \<Rightarrow> string \<Rightarrow> string" where
  "join_slash d f = d @ ''/'' @ f"

definition always_ok :: "host \<Rightarrow> bool" where
  "always_ok s = True"

definition fails_at :: "string \<Rightarrow> host \<Rightarrow> bool" where
  "fails_at p s = (filepath s \<noteq> p)"

definition blank :: obj where
  "blank = \<lparr>name = ''Empty'', location = (0, 0, 0), rotation_euler = [0, 0, 0]\<rparr>"

definition scene_objects :: "nat \<Rightarrow> obj" where
  "scene_objects =
     (\<lambda>i. blank)
       (0 := \<lparr>name = ''Camera'', location = (7, - 6, 5), rotation_euler = [0, 0, 0]\<rparr>,
        1 := \<lparr>name = ''node1'', location = (0, 0, 0), rotation_euler = [0, 0, 0]\<rparr>,
        2 := \<lparr>name = ''node2'', location = (5, 0, 0), rotation_euler = [0, 0, 0]\<rparr>)"

text \<open>Two empties in \<^verbatim>\<open>FPV_nodes\<close>, the camera outside the collection.\<close>

definition two_node_scene :: host where
  "two_node_scene =
     \<lparr>objects = scene_objects,
      collections = [NODE_COLLECTION \<mapsto> [1, 2]],
      camera = Some 0,
      filepath = ''/tmp/out'',
      files = Map.empty,
      events = []\<rparr>"

text \<open>The active camera is itself linked into \<^verbatim>\<open>FPV_nodes\<close>, before one empty.\<close>

definition camera_in_nodes_scene :: host where
  "camera_in_nodes_scene = two_node_scene\<lparr>collections := [NODE_COLLECTION \<mapsto> [0, 2]]\<rparr>"

text \<open>No collection named \<^verbatim>\<open>FPV_nodes\<close>.\<close>

definition no_collection_scene :: host where
  "no_collection_scene = two_node_scene\<lparr>collections := [''Collection'' \<mapsto> [1, 2]]\<rparr>"

text \<open>\<^verbatim>\<open>FPV_nodes\<close> exists and is empty.\<close>

definition empty_collection_scene :: host where
  "empty_collection_scene = two_node_scene\<lparr>collections := [NODE_COLLECTION \<mapsto> []]\<rparr>"

section \<open>The enumerator\<close>

lemma append_nodes_map:
  "append_nodes s ids acc = acc @ map (\<lambda>i. (name (objects s i), LocationOf i)) ids"
  by (induction ids arbitrary: acc) simp_all

section \<open>Facts about the loops\<close>

lemmas prims = set_location_def set_rotation_def set_filepath_def render_def deref_def Let_def

lemma render_paths_append: "render_paths (xs @ ys) = render_paths xs @ render_paths ys"
  by (induction xs rule: render_paths.induct) simp_all

lemma filepath_writes_append: "filepath_writes (xs @ ys) = filepath_writes xs @ filepath_writes ys"
  by (induction xs rule: filepath_writes.induct) simp_all

lemma angle_events_Cons:
  "angle_events pj out nm ((k, v) # tbl) =
     [SetRotation v, SetFilepath (pj out (output_file nm k)), Render (pj out (output_file nm k))]
     @ angle_events pj out nm tbl"
  by (simp add: angle_events_def)

lemma angle_events_Nil: "angle_events pj out nm [] = []"
  by (simp add: angle_events_def)

lemma node_events_Cons:
  "node_events pj out tbl ((nm, loc) # nodes) =
     SetLocation loc # angle_events pj out nm tbl @ node_events pj out tbl nodes"
  by (simp add: node_events_def)

lemma node_events_Nil: "node_events pj out tbl [] = []"
  by (simp add: node_events_def)


lemma angle_loop_collections:
  "collections (state_of (angle_loop pj ok cam out nm tbl s)) = collections s"
  by (induction tbl arbitrary: s)
     (auto simp: prims split: option.splits outcome.splits if_splits)

lemma angle_loop_camera:
  "camera (state_of (angle_loop pj ok cam out nm tbl s)) = camera s"
  by (induction tbl arbitrary: s)
     (auto simp: prims split: option.splits outcome.splits if_splits)

lemma angle_loop_name:
  "name (objects (state_of (angle_loop pj ok cam out nm tbl s)) i) = name (objects s i)"
  by (induction tbl arbitrary: s)
     (auto simp: prims split: option.splits outcome.splits if_splits)

lemma angle_loop_location:
  "location (objects (state_of (angle_loop pj ok cam out nm tbl s)) i) = location (objects s i)"
  by (induction tbl arbitrary: s)
     (auto simp: prims split: option.splits outcome.splits if_splits)

lemma angle_loop_other_objects:
  "cam \<noteq> Some i \<Longrightarrow> objects (state_of (angle_loop pj ok cam out nm tbl s)) i = objects s i"
  by (induction tbl arbitrary: s)
     (auto simp: prims split: option.splits outcome.splits if_splits)


lemma node_loop_None:
  "node_loop pj ok None out tbl (n # nodes) s = Raised AttributeError s"
  by (cases n) (simp add: set_location_def)

lemma node_loop_Some:
  "node_loop pj ok (Some c) out tbl ((nm, loc) # nodes) s =
     (case angle_loop pj ok (Some c) out nm tbl
             (s\<lparr>objects := (objects s)(c := (objects s c)\<lparr>location := deref s loc\<rparr>),
                events := events s @ [SetLocation loc]\<rparr>) of
        Raised e s' \<Rightarrow> Raised e s'
      | Done s2 \<Rightarrow> node_loop pj ok (Some c) out tbl nodes s2)"
  by (simp add: set_location_def)

lemma state_of_case:
  "state_of (case r of Raised e s' \<Rightarrow> Raised e s' | Done s2 \<Rightarrow> f s2) =
     (if completed r then state_of (f (state_of r)) else state_of r)"
  by (cases r) simp_all

lemma node_loop_collections:
  "collections (state_of (node_loop pj ok cam out tbl nodes s)) = collections s"
proof (induction nodes arbitrary: s)
  case Nil
  show ?case by simp
next
  case (Cons n nodes)
  then show ?case
    by (cases n; cases cam)
       (simp_all add: node_loop_None node_loop_Some state_of_case angle_loop_collections
                 del: node_loop.simps)
qed

lemma node_loop_camera:
  "camera (state_of (node_loop pj ok cam out tbl nodes s)) = camera s"
proof (induction nodes arbitrary: s)
  case Nil
  show ?case by simp
next
  case (Cons n nodes)
  then show ?case
    by (cases n; cases cam)
       (simp_all add: node_loop_None node_loop_Some state_of_case angle_loop_camera
                 del: node_loop.simps)
qed

lemma node_loop_name:
  "name (objects (state_of (node_loop pj ok cam out tbl nodes s)) i) = name (objects s i)"
proof (induction nodes arbitrary: s)
  case Nil
  show ?case by simp
next
  case (Cons n nodes)
  then show ?case
    by (cases n; cases cam)
       (simp_all add: node_loop_None node_loop_Some state_of_case angle_loop_name
                 del: node_loop.simps)
qed

lemma node_loop_other_objects:
  "cam \<noteq> Some i \<Longrightarrow> objects (state_of (node_loop pj ok cam out tbl nodes s)) i = objects s i"
proof (induction nodes arbitrary: s)
  case Nil
  show ?case by simp
next
  case (Cons n nodes)
  then show ?case
    by (cases n; cases cam)
       (simp_all add: node_loop_None node_loop_Some state_of_case angle_loop_other_objects
                 del: node_loop.simps)
qed


section \<open>What a pass of the loops leaves behind\<close>

lemma angle_loop_None:
  "angle_loop pj ok None out nm (kv # tbl) s = Raised AttributeError s"
  by (cases kv) (simp add: set_rotation_def)

lemma angle_loop_Some:
  "angle_loop pj ok (Some c) out nm ((k, v) # tbl) s =
     (case render ok
             (s\<lparr>objects := (objects s)(c := (objects s c)\<lparr>rotation_euler := v\<rparr>),
                filepath := pj out (output_file nm k),
                events := events s @ [SetRotation v, SetFilepath (pj out (output_file nm k))]\<rparr>) of
        Raised e s' \<Rightarrow> Raised e s'
      | Done s2 \<Rightarrow> angle_loop pj ok (Some c) out nm tbl s2)"
  by (simp add: set_rotation_def set_filepath_def)

lemma render_Done:
  "render ok s = Done s' \<Longrightarrow>
   events s' = events s @ [Render (filepath s)] \<and>
   dom (files s') = insert (filepath s) (dom (files s)) \<and>
   filepath s' = filepath s"
  by (clarsimp simp: render_def Let_def split: option.splits if_splits)

lemma render_Raised:
  "render ok s = Raised e s' \<Longrightarrow>
   e = RuntimeError \<and>
   events s' = events s @ [Render (filepath s)] \<and>
   files s' = files s \<and>
   filepath s' = filepath s"
  by (auto simp: render_def Let_def split: option.splits if_splits)

lemma angle_loop_Done:
  "angle_loop pj ok cam out nm tbl s = Done s' \<Longrightarrow>
   events s' = events s @ angle_events pj out nm tbl \<and>
   dom (files s') = dom (files s) \<union> set (render_paths (angle_events pj out nm tbl))"
proof (induction tbl arbitrary: s)
  case Nil
  then show ?case by (simp add: angle_events_Nil)
next
  case (Cons kv tbl)
  obtain k v where kv: "kv = (k, v)" by (cases kv)
  from Cons.prems obtain c where cam: "cam = Some c"
    by (cases cam) (simp_all add: angle_loop_None)
  let ?p = "pj out (output_file nm k)"
  let ?s1 = "s\<lparr>objects := (objects s)(c := (objects s c)\<lparr>rotation_euler := v\<rparr>),
               filepath := ?p,
               events := events s @ [SetRotation v, SetFilepath ?p]\<rparr>"
  from Cons.prems obtain s2 where
    r: "render ok ?s1 = Done s2" and l: "angle_loop pj ok cam out nm tbl s2 = Done s'"
    unfolding kv cam angle_loop_Some by (auto split: outcome.splits)
  from render_Done[OF r] have
    ev2: "events s2 = events s @ [SetRotation v, SetFilepath ?p, Render ?p]" and
    fi2: "dom (files s2) = insert ?p (dom (files s))"
    by simp_all
  from Cons.IH[OF l] show ?case
    by (simp add: ev2 fi2 kv angle_events_Cons)
qed

lemma angle_loop_Raised:
  "angle_loop pj ok (Some c) out nm tbl s = Raised e s' \<Longrightarrow>
   e = RuntimeError \<and>
   (\<exists>evs k. k \<in> fst ` set tbl \<and> filepath s' = pj out (output_file nm k) \<and>
        events s' = events s @ evs @ [Render (filepath s')] \<and>
        prefix (evs @ [Render (filepath s')]) (angle_events pj out nm tbl) \<and>
        dom (files s') = dom (files s) \<union> set (render_paths evs))"
proof (induction tbl arbitrary: s)
  case Nil
  then show ?case by simp
next
  case (Cons kv tbl)
  obtain k v where kv: "kv = (k, v)" by (cases kv)
  let ?p = "pj out (output_file nm k)"
  let ?s1 = "s\<lparr>objects := (objects s)(c := (objects s c)\<lparr>rotation_euler := v\<rparr>),
               filepath := ?p,
               events := events s @ [SetRotation v, SetFilepath ?p]\<rparr>"
  show ?case
  proof (cases "render ok ?s1")
    case (Raised e1 s1')
    with Cons.prems have eq: "e = e1" "s' = s1'"
      unfolding kv angle_loop_Some by simp_all
    from render_Raised[OF Raised] have
      e1: "e1 = RuntimeError" and
      ev1: "events s1' = events s @ [SetRotation v, SetFilepath ?p, Render ?p]" and
      fi1: "files s1' = files s" and fp1: "filepath s1' = ?p"
      by simp_all
    have "k \<in> fst ` set (kv # tbl)" by (simp add: kv)
    moreover have "filepath s' = ?p" by (simp add: eq fp1)
    moreover have "events s' = events s @ [SetRotation v, SetFilepath ?p] @ [Render (filepath s')]"
      by (simp add: eq ev1 fp1)
    moreover have "prefix ([SetRotation v, SetFilepath ?p] @ [Render (filepath s')])
                     (angle_events pj out nm (kv # tbl))"
      by (simp add: eq fp1 kv angle_events_Cons)
    moreover have "dom (files s') = dom (files s) \<union> set (render_paths [SetRotation v, SetFilepath ?p])"
      by (simp add: eq fi1)
    ultimately show ?thesis using e1 eq by blast
  next
    case (Done s2)
    with Cons.prems have l: "angle_loop pj ok (Some c) out nm tbl s2 = Raised e s'"
      unfolding kv angle_loop_Some by simp
    from render_Done[OF Done] have
      ev2: "events s2 = events s @ [SetRotation v, SetFilepath ?p, Render ?p]" and
      fi2: "dom (files s2) = insert ?p (dom (files s))"
      by simp_all
    from Cons.IH[OF l] obtain evs k' where
      e: "e = RuntimeError" and k': "k' \<in> fst ` set tbl" and
      fp: "filepath s' = pj out (output_file nm k')" and
      ev: "events s' = events s2 @ evs @ [Render (filepath s')]" and
      pre: "prefix (evs @ [Render (filepath s')]) (angle_events pj out nm tbl)" and
      fi: "dom (files s') = dom (files s2) \<union> set (render_paths evs)"
      by blast
    let ?evs = "[SetRotation v, SetFilepath ?p, Render ?p] @ evs"
    have "k' \<in> fst ` set (kv # tbl)" using k' by simp
    moreover have "events s' = events s @ ?evs @ [Render (filepath s')]"
      using ev by (simp add: ev2)
    moreover have "prefix (?evs @ [Render (filepath s')]) (angle_events pj out nm (kv # tbl))"
      using pre by (simp add: kv angle_events_Cons)
    moreover have "dom (files s') = dom (files s) \<union> set (render_paths ?evs)"
      using fi by (simp add: fi2)
    ultimately show ?thesis using e fp by blast
  qed
qed

lemma node_loop_Done:
  "node_loop pj ok cam out tbl nodes s = Done s' \<Longrightarrow>
   events s' = events s @ node_events pj out tbl nodes \<and>
   dom (files s') = dom (files s) \<union> set (render_paths (node_events pj out tbl nodes))"
proof (induction nodes arbitrary: s)
  case Nil
  then show ?case by (simp add: node_events_Nil)
next
  case (Cons n nodes)
  obtain nm loc where n: "n = (nm, loc)" by (cases n)
  from Cons.prems obtain c where cam: "cam = Some c"
    by (cases cam) (simp_all add: node_loop_None del: node_loop.simps)
  let ?s1 = "s\<lparr>objects := (objects s)(c := (objects s c)\<lparr>location := deref s loc\<rparr>),
               events := events s @ [SetLocation loc]\<rparr>"
  from Cons.prems obtain s2 where
    a: "angle_loop pj ok cam out nm tbl ?s1 = Done s2" and
    l: "node_loop pj ok cam out tbl nodes s2 = Done s'"
    unfolding n cam node_loop_Some by (auto split: outcome.splits)
  from angle_loop_Done[OF a] have
    ev2: "events s2 = events s @ SetLocation loc # angle_events pj out nm tbl" and
    fi2: "dom (files s2) = dom (files s) \<union> set (render_paths (angle_events pj out nm tbl))"
    by simp_all
  from Cons.IH[OF l] show ?case
    by (simp add: ev2 fi2 n node_events_Cons render_paths_append Un_assoc)
qed

lemma node_loop_Raised:
  "node_loop pj ok (Some c) out tbl nodes s = Raised e s' \<Longrightarrow>
   e = RuntimeError \<and>
   (\<exists>evs nm k. nm \<in> fst ` set nodes \<and> k \<in> fst ` set tbl \<and>
        filepath s' = pj out (output_file nm k) \<and>
        events s' = events s @ evs @ [Render (filepath s')] \<and>
        prefix (evs @ [Render (filepath s')]) (node_events pj out tbl nodes) \<and>
        dom (files s') = dom (files s) \<union> set (render_paths evs))"
proof (induction nodes arbitrary: s)
  case Nil
  then show ?case by simp
next
  case (Cons n nodes)
  obtain nm loc where n: "n = (nm, loc)" by (cases n)
  let ?s1 = "s\<lparr>objects := (objects s)(c := (objects s c)\<lparr>location := deref s loc\<rparr>),
               events := events s @ [SetLocation loc]\<rparr>"
  show ?case
  proof (cases "angle_loop pj ok (Some c) out nm tbl ?s1")
    case (Raised e1 s1')
    with Cons.prems have eq: "e1 = e" "s1' = s'"
      unfolding n node_loop_Some by simp_all
    from angle_loop_Raised[OF Raised] obtain evs k where
      e: "e = RuntimeError" and k: "k \<in> fst ` set tbl" and
      fp: "filepath s' = pj out (output_file nm k)" and
      ev: "events s' = events ?s1 @ evs @ [Render (filepath s')]" and
      pre: "prefix (evs @ [Render (filepath s')]) (angle_events pj out nm tbl)" and
      fi: "dom (files s') = dom (files ?s1) \<union> set (render_paths evs)"
      unfolding eq by blast
    let ?evs = "SetLocation loc # evs"
    have "nm \<in> fst ` set (n # nodes)" by (simp add: n)
    moreover have "events s' = events s @ ?evs @ [Render (filepath s')]"
      using ev by simp
    moreover have "prefix (?evs @ [Render (filepath s')]) (node_events pj out tbl (n # nodes))"
      using pre by (simp add: n node_events_Cons)
    moreover have "dom (files s') = dom (files s) \<union> set (render_paths ?evs)"
      using fi by simp
    ultimately show ?thesis using e k fp by blast
  next
    case (Done s2)
    with Cons.prems have l: "node_loop pj ok (Some c) out tbl nodes s2 = Raised e s'"
      unfolding n node_loop_Some by simp
    from angle_loop_Done[OF Done] have
      ev2: "events s2 = events s @ SetLocation loc # angle_events pj out nm tbl" and
      fi2: "dom (files s2) = dom (files s) \<union> set (render_paths (angle_events pj out nm tbl))"
      by simp_all
    from Cons.IH[OF l] obtain evs nm' k where
      e: "e = RuntimeError" and nm': "nm' \<in> fst ` set nodes" and k: "k \<in> fst ` set tbl" and
      fp: "filepath s' = pj out (output_file nm' k)" and
      ev: "events s' = events s2 @ evs @ [Render (filepath s')]" and
      pre: "prefix (evs @ [Render (filepath s')]) (node_events pj out tbl nodes)" and
      fi: "dom (files s') = dom (files s2) \<union> set (render_paths evs)"
      by blast
    let ?evs = "SetLocation loc # angle_events pj out nm tbl @ evs"
    have "nm' \<in> fst ` set (n # nodes)" using nm' by simp
    moreover have "events s' = events s @ ?evs @ [Render (filepath s')]"
      using ev by (simp add: ev2)
    moreover have "prefix (?evs @ [Render (filepath s')]) (node_events pj out tbl (n # nodes))"
      using pre by (simp add: n node_events_Cons)
    moreover have "dom (files s') = dom (files s) \<union> set (render_paths ?evs)"
      using fi by (simp add: fi2 render_paths_append Un_assoc)
    ultimately show ?thesis using e k fp by blast
  qed
qed

lemma node_loop_events_prefix:
  "\<exists>evs. events (state_of (node_loop pj ok cam out tbl nodes s)) = events s @ evs \<and>
         prefix evs (node_events pj out tbl nodes)"
proof (cases "node_loop pj ok cam out tbl nodes s")
  case (Done s')
  then show ?thesis by (simp add: node_loop_Done)
next
  case (Raised e s')
  show ?thesis
  proof (cases cam)
    case None
    with Raised have "s' = s"
      by (cases nodes) (simp_all add: node_loop_None)
    with Raised show ?thesis by simp
  next
    case (Some c)
    from node_loop_Raised[OF Raised[unfolded Some]] obtain evs where
      "events s' = events s @ evs @ [Render (filepath s')]"
      "prefix (evs @ [Render (filepath s')]) (node_events pj out tbl nodes)"
      by blast
    with Raised show ?thesis by simp
  qed
qed

lemma angle_loop_completes:
  "camera s \<noteq> None \<Longrightarrow> (\<forall>t. ok t) \<Longrightarrow>
   completed (angle_loop pj ok (Some c) out nm tbl s)"
  by (induction tbl arbitrary: s)
     (auto simp: prims split: option.splits outcome.splits if_splits)

lemma node_loop_completes:
  "camera s \<noteq> None \<Longrightarrow> (\<forall>t. ok t) \<Longrightarrow>
   completed (node_loop pj ok (Some c) out tbl nodes s)"
proof (induction nodes arbitrary: s)
  case Nil
  show ?case by simp
next
  case (Cons n nodes)
  obtain nm loc where n: "n = (nm, loc)" by (cases n)
  let ?s1 = "s\<lparr>objects := (objects s)(c := (objects s c)\<lparr>location := deref s loc\<rparr>),
               events := events s @ [SetLocation loc]\<rparr>"
  have c1: "camera ?s1 \<noteq> None" using Cons.prems by simp
  have "completed (angle_loop pj ok (Some c) out nm tbl ?s1)"
    using c1 Cons.prems(2) by (rule angle_loop_completes)
  then obtain s2 where
    a: "angle_loop pj ok (Some c) out nm tbl ?s1 = Done s2"
    by (cases "angle_loop pj ok (Some c) out nm tbl ?s1") simp_all
  have "camera s2 = camera ?s1"
    using angle_loop_camera[of pj ok "Some c" out nm tbl ?s1] by (simp add: a)
  with c1 have "camera s2 \<noteq> None" by simp
  from Cons.IH[OF this Cons.prems(2)] show ?case
    unfolding n node_loop_Some by (simp add: a)
qed

lemma render_paths_angle_events:
  "render_paths (angle_events pj out nm tbl) = map (\<lambda>(k, v). pj out (output_file nm k)) tbl"
  by (induction tbl) (auto simp: angle_events_Nil angle_events_Cons)

lemma filepath_writes_angle_events:
  "filepath_writes (angle_events pj out nm tbl) = map (\<lambda>(k, v). pj out (output_file nm k)) tbl"
  by (induction tbl) (auto simp: angle_events_Nil angle_events_Cons)

lemma render_paths_node_events:
  "render_paths (node_events pj out tbl nodes) = output_paths pj out tbl nodes"
  by (induction nodes)
     (auto simp: node_events_Nil node_events_Cons output_paths_def render_paths_append
                 render_paths_angle_events)

lemma filepath_writes_node_events:
  "filepath_writes (node_events pj out tbl nodes) = output_paths pj out tbl nodes"
  by (induction nodes)
     (auto simp: node_events_Nil node_events_Cons output_paths_def filepath_writes_append
                 filepath_writes_angle_events)

section \<open>Running the script on a concrete host\<close>

lemma set_location_record:
  "set_location (Some c) (LocationOf i)
     \<lparr>objects = ob, collections = co, camera = ca, filepath = fp, files = fs, events = ev\<rparr> =
   Done \<lparr>objects = ob(c := (ob c)\<lparr>location := location (ob i)\<rparr>), collections = co,
         camera = ca, filepath = fp, files = fs, events = ev @ [SetLocation (LocationOf i)]\<rparr>"
  by (simp add: set_location_def deref_def)

lemma set_rotation_record:
  "set_rotation (Some c) v
     \<lparr>objects = ob, collections = co, camera = ca, filepath = fp, files = fs, events = ev\<rparr> =
   Done \<lparr>objects = ob(c := (ob c)\<lparr>rotation_euler := v\<rparr>), collections = co,
         camera = ca, filepath = fp, files = fs, events = ev @ [SetRotation v]\<rparr>"
  by (simp add: set_rotation_def)

lemma set_filepath_record:
  "set_filepath p
     \<lparr>objects = ob, collections = co, camera = ca, filepath = fp, files = fs, events = ev\<rparr> =
   \<lparr>objects = ob, collections = co, camera = ca, filepath = p, files = fs,
    events = ev @ [SetFilepath p]\<rparr>"
  by (simp add: set_filepath_def)

lemma render_record:
  "render ok
     \<lparr>objects = ob, collections = co, camera = Some c, filepath = fp, files = fs, events = ev\<rparr> =
   (if ok \<lparr>objects = ob, collections = co, camera = Some c, filepath = fp, files = fs,
           events = ev\<rparr>
    then Done \<lparr>objects = ob, collections = co, camera = Some c, filepath = fp,
               files = fs(fp \<mapsto> (location (ob c), rotation_euler (ob c))),
               events = ev @ [Render fp]\<rparr>
    else Raised RuntimeError
           \<lparr>objects = ob, collections = co, camera = Some c, filepath = fp, files = fs,
            events = ev @ [Render fp]\<rparr>)"
  by (simp add: render_def)

lemmas exec =
  set_location_record set_rotation_record set_filepath_record render_record
  script_def run_def render_node_angles_def get_node_locations_def
  NODE_COLLECTION_def ROTATION_ANGLES_def

lemmas scenes =
  two_node_scene_def camera_in_nodes_scene_def no_collection_scene_def
  empty_collection_scene_def scene_objects_def blank_def always_ok_def

lemmas strings = join_slash_def output_file_def str_int_def str_nat.simps

section \<open>The angle table\<close>

lemma radians_minus: "radians (- d) = - radians d"
  by (simp add: radians_def)

lemma radians_zero: "radians 0 = 0"
  by (simp add: radians_def)

text \<open>
  C3: in every entry of the angle table the rotation has three components, the first
  (pitch) is 90 degrees in radians and the third (yaw) is the negated heading in radians,
  whichever way the negation is read: the radians of \<open>- h\<close>, or minus the radians
  of \<open>h\<close>.
\<close>

theorem rotation_table_pitch_yaw:
  "(h, r) \<in> set ROTATION_ANGLES \<Longrightarrow>
   length r = 3 \<and> r ! 0 = radians 90 \<and>
   r ! 2 = radians (- real_of_int h) \<and> r ! 2 = - radians (real_of_int h)"
  by (auto simp: ROTATION_ANGLES_def radians_minus radians_zero)

theorem rotation_table_pitch_yaw_witness:
  "(45, [radians 90, radians 0, radians (- 45)]) \<in> set ROTATION_ANGLES \<and>
   [radians 90, radians 0, radians (- 45)] ! 2 = - radians (real_of_int 45)"
proof -
  have h: "(45, [radians 90, radians 0, radians (- 45)]) \<in> set ROTATION_ANGLES"
    by (simp add: ROTATION_ANGLES_def)
  from rotation_table_pitch_yaw[OF h] h show ?thesis by simp
qed

section \<open>The run as a whole\<close>

text \<open>
  C5: when the scene has no collection named \<^verbatim>\<open>FPV_nodes\<close> the script raises the
  lookup fault in the very state it started from: no event has been recorded, so no
  render was invoked, and the file system is untouched.
\<close>

theorem missing_collection_aborts:
  "collections s NODE_COLLECTION = None \<Longrightarrow>
   script pj ok s = Raised KeyError s"
  by (simp add: script_def run_def get_node_locations_def)

theorem missing_collection_aborts_witness:
  "collections no_collection_scene NODE_COLLECTION = None \<and>
   script join_slash always_ok no_collection_scene = Raised KeyError no_collection_scene \<and>
   render_paths (events (state_of (script join_slash always_ok no_collection_scene))) = [] \<and>
   files (state_of (script join_slash always_ok no_collection_scene)) = Map.empty"
proof -
  have h: "collections no_collection_scene NODE_COLLECTION = None"
    by (simp add: no_collection_scene_def two_node_scene_def NODE_COLLECTION_def)
  have "events no_collection_scene = []" "files no_collection_scene = Map.empty"
    by (simp_all add: no_collection_scene_def two_node_scene_def)
  with missing_collection_aborts[OF h, of join_slash always_ok] h show ?thesis by simp
qed

text \<open>
  C10: when \<^verbatim>\<open>FPV_nodes\<close> exists and is empty the script completes, and the state it
  completes in differs from the initial one by a single recorded event, the final write
  of the captured base directory to the render file path (which already held it). So no
  render is invoked, no file written, every object including the camera keeps position
  and rotation, and the render file path is the base directory. This holds also when the
  scene has no active camera.
\<close>

theorem empty_collection_run:
  "collections s NODE_COLLECTION = Some [] \<Longrightarrow>
   script pj ok s = Done (s\<lparr>events := events s @ [SetFilepath (filepath s)]\<rparr>)"
  by (simp add: script_def run_def get_node_locations_def render_node_angles_def
                set_filepath_def)

theorem empty_collection_run_witness:
  "collections empty_collection_scene NODE_COLLECTION = Some [] \<and>
   script join_slash always_ok empty_collection_scene =
     Done (empty_collection_scene\<lparr>events := [SetFilepath ''/tmp/out'']\<rparr>)"
proof -
  have h: "collections empty_collection_scene NODE_COLLECTION = Some []"
    by (simp add: empty_collection_scene_def two_node_scene_def)
  have "events empty_collection_scene = []" "filepath empty_collection_scene = ''/tmp/out''"
    by (simp_all add: empty_collection_scene_def two_node_scene_def)
  with empty_collection_run[OF h, of join_slash always_ok] h show ?thesis by simp
qed

text \<open>
  C4: after a run that completes, the render file path is the one the scene had when the
  script was loaded, and the write that restored it is the last thing the script did.
\<close>

theorem output_path_restored:
  "script pj ok s = Done s' \<Longrightarrow>
   filepath s' = filepath s \<and> events s' \<noteq> [] \<and> last (events s') = SetFilepath (filepath s)"
  by (auto simp: script_def run_def set_filepath_def split: sum.splits outcome.splits)

theorem output_path_restored_witness:
  "completed (script join_slash always_ok two_node_scene) \<and>
   filepath (state_of (script join_slash always_ok two_node_scene)) = ''/tmp/out'' \<and>
   filepath_writes (events (state_of (script join_slash always_ok two_node_scene))) ! 15 =
     ''/tmp/out/node2__angle_315.png''"
proof -
  have c: "completed (script join_slash always_ok two_node_scene)"
    by (simp add: exec scenes)
  then obtain s' where d: "script join_slash always_ok two_node_scene = Done s'"
    by (cases "script join_slash always_ok two_node_scene") simp_all
  have f: "filepath two_node_scene = ''/tmp/out''"
    by (simp add: two_node_scene_def)
  have w: "filepath_writes (events (state_of (script join_slash always_ok two_node_scene))) ! 15 =
     ''/tmp/out/node2__angle_315.png''"
    by (simp add: exec scenes strings)
  from output_path_restored[OF d] c f w show ?thesis by (simp add: d)
qed

section \<open>The render driver\<close>

lemma output_paths_Cons:
  "output_paths pj out tbl ((nm, loc) # nodes) =
     map (\<lambda>(k, v). pj out (output_file nm k)) tbl @ output_paths pj out tbl nodes"
  by (simp add: output_paths_def)

lemma length_output_paths:
  "length (output_paths pj out tbl nodes) = length nodes * length tbl"
  by (induction nodes) (auto simp: output_paths_def)

lemma output_paths_nth:
  "i < length nodes \<Longrightarrow> j < length tbl \<Longrightarrow>
   output_paths pj out tbl nodes ! (i * length tbl + j) =
     pj out (output_file (fst (nodes ! i)) (fst (tbl ! j)))"
proof (induction nodes arbitrary: i)
  case Nil
  then show ?case by simp
next
  case (Cons n nodes)
  obtain nm loc where n: "n = (nm, loc)" by (cases n)
  show ?case
  proof (cases i)
    case 0
    with Cons.prems show ?thesis
      by (simp add: n output_paths_Cons nth_append case_prod_beta)
  next
    case (Suc i')
    with Cons.prems have "i' < length nodes" by simp
    from Cons.IH[OF this Cons.prems(2)] show ?thesis
      by (simp add: Suc n output_paths_Cons nth_append)
  qed
qed

lemma set_output_paths:
  "p \<in> set (output_paths pj out tbl nodes) \<Longrightarrow>
   \<exists>nm\<in>fst ` set nodes. \<exists>h\<in>fst ` set tbl. p = pj out (output_file nm h)"
proof (induction nodes)
  case Nil
  then show ?case by (simp add: output_paths_def)
next
  case (Cons n nodes)
  obtain nm loc where n: "n = (nm, loc)" by (cases n)
  from Cons.prems have
    "p \<in> (\<lambda>kv. pj out (output_file nm (fst kv))) ` set tbl \<or>
     p \<in> set (output_paths pj out tbl nodes)"
    by (auto simp: n output_paths_Cons case_prod_beta)
  then show ?case
  proof
    assume "p \<in> (\<lambda>kv. pj out (output_file nm (fst kv))) ` set tbl"
    then obtain kv where "kv \<in> set tbl" and p: "p = pj out (output_file nm (fst kv))"
      by blast
    then have "fst kv \<in> fst ` set tbl" by simp
    moreover have "nm \<in> fst ` set (n # nodes)" by (simp add: n)
    ultimately show ?thesis using p by blast
  next
    assume "p \<in> set (output_paths pj out tbl nodes)"
    from Cons.IH[OF this] obtain nm' h where
      "nm' \<in> fst ` set nodes" and h: "h \<in> fst ` set tbl" "p = pj out (output_file nm' h)"
      by blast
    then have "nm' \<in> fst ` set (n # nodes)" by simp
    with h show ?thesis by blast
  qed
qed

lemma filepath_writes_prefix:
  "prefix evs full \<Longrightarrow> set (filepath_writes evs) \<subseteq> set (filepath_writes full)"
  by (auto simp: prefix_def filepath_writes_append)

lemma table_file_names:
  "map (\<lambda>(k, v). pj out (output_file nm k)) ROTATION_ANGLES =
   map (\<lambda>f. pj out (nm @ f))
     [''__angle_0.png'', ''__angle_45.png'', ''__angle_90.png'', ''__angle_135.png'',
      ''__angle_180.png'', ''__angle_225.png'', ''__angle_270.png'', ''__angle_315.png'']"
  by (simp add: ROTATION_ANGLES_def output_file_def str_int_def str_nat.simps)

lemma output_paths_table:
  "output_paths pj out ROTATION_ANGLES nodes =
   concat (map (\<lambda>(nm, loc). map (\<lambda>f. pj out (nm @ f))
     [''__angle_0.png'', ''__angle_45.png'', ''__angle_90.png'', ''__angle_135.png'',
      ''__angle_180.png'', ''__angle_225.png'', ''__angle_270.png'', ''__angle_315.png'']) nodes)"
  unfolding output_paths_def table_file_names ..

lemma count_location_angle_events:
  "filter is_location_write (angle_events pj out nm tbl) = []"
  by (induction tbl) (auto simp: angle_events_Nil angle_events_Cons)

lemma count_rotation_angle_events:
  "length (filter is_rotation_write (angle_events pj out nm tbl)) = length tbl"
  by (induction tbl) (auto simp: angle_events_Nil angle_events_Cons)

lemma count_location_node_events:
  "length (filter is_location_write (node_events pj out tbl nodes)) = length nodes"
  by (induction nodes)
     (auto simp: node_events_Nil node_events_Cons count_location_angle_events)

lemma count_rotation_node_events:
  "length (filter is_rotation_write (node_events pj out tbl nodes)) = length nodes * length tbl"
  by (induction nodes)
     (auto simp: node_events_Nil node_events_Cons count_rotation_angle_events)

text \<open>
  C1: a pass of the render driver that completes has invoked the renderer once for every
  (marker, angle-table entry) pair and has set the output path once for each, in
  marker-major order: the paths rendered, and the paths written to the render file path,
  are those of the first marker for all entries of the table in table order, then those
  of the second marker, and so on. The path at position \<open>i * 8 + j\<close> is the one of
  marker \<open>i\<close> and table entry \<open>j\<close>.
\<close>

theorem render_node_angles_marker_major:
  "render_node_angles pj ok cam out nodes s = Done s' \<Longrightarrow>
   render_paths (events s') =
     render_paths (events s) @ output_paths pj out ROTATION_ANGLES nodes \<and>
   filepath_writes (events s') =
     filepath_writes (events s) @ output_paths pj out ROTATION_ANGLES nodes \<and>
   length (output_paths pj out ROTATION_ANGLES nodes) = length nodes * length ROTATION_ANGLES \<and>
   (\<forall>i<length nodes. \<forall>j<length ROTATION_ANGLES.
      output_paths pj out ROTATION_ANGLES nodes ! (i * length ROTATION_ANGLES + j) =
        pj out (output_file (fst (nodes ! i)) (fst (ROTATION_ANGLES ! j))))"
proof -
  assume "render_node_angles pj ok cam out nodes s = Done s'"
  then have "events s' = events s @ node_events pj out ROTATION_ANGLES nodes"
    by (simp add: render_node_angles_def node_loop_Done)
  then show ?thesis
    by (simp add: render_paths_append filepath_writes_append render_paths_node_events
                  filepath_writes_node_events length_output_paths output_paths_nth)
qed

theorem render_node_angles_marker_major_witness:
  "completed (render_node_angles join_slash always_ok (Some 0) ''/tmp/out''
     [(''node1'', LocationOf 1), (''node2'', LocationOf 2)] two_node_scene) \<and>
   render_paths (events (state_of (render_node_angles join_slash always_ok (Some 0) ''/tmp/out''
     [(''node1'', LocationOf 1), (''node2'', LocationOf 2)] two_node_scene))) =
   [''/tmp/out/node1__angle_0.png'', ''/tmp/out/node1__angle_45.png'',
    ''/tmp/out/node1__angle_90.png'', ''/tmp/out/node1__angle_135.png'',
    ''/tmp/out/node1__angle_180.png'', ''/tmp/out/node1__angle_225.png'',
    ''/tmp/out/node1__angle_270.png'', ''/tmp/out/node1__angle_315.png'',
    ''/tmp/out/node2__angle_0.png'', ''/tmp/out/node2__angle_45.png'',
    ''/tmp/out/node2__angle_90.png'', ''/tmp/out/node2__angle_135.png'',
    ''/tmp/out/node2__angle_180.png'', ''/tmp/out/node2__angle_225.png'',
    ''/tmp/out/node2__angle_270.png'', ''/tmp/out/node2__angle_315.png'']"
proof -
  let ?r = "render_node_angles join_slash always_ok (Some 0) ''/tmp/out''
     [(''node1'', LocationOf 1), (''node2'', LocationOf 2)] two_node_scene"
  have c: "completed ?r"
    by (simp add: exec scenes)
  then obtain s' where d: "?r = Done s'"
    by (cases ?r) simp_all
  have e: "events two_node_scene = []"
    by (simp add: two_node_scene_def)
  from render_node_angles_marker_major[OF d, THEN conjunct1]
  have p: "render_paths (events s') =
   [''/tmp/out/node1__angle_0.png'', ''/tmp/out/node1__angle_45.png'',
    ''/tmp/out/node1__angle_90.png'', ''/tmp/out/node1__angle_135.png'',
    ''/tmp/out/node1__angle_180.png'', ''/tmp/out/node1__angle_225.png'',
    ''/tmp/out/node1__angle_270.png'', ''/tmp/out/node1__angle_315.png'',
    ''/tmp/out/node2__angle_0.png'', ''/tmp/out/node2__angle_45.png'',
    ''/tmp/out/node2__angle_90.png'', ''/tmp/out/node2__angle_135.png'',
    ''/tmp/out/node2__angle_180.png'', ''/tmp/out/node2__angle_225.png'',
    ''/tmp/out/node2__angle_270.png'', ''/tmp/out/node2__angle_315.png'']"
    by (simp add: e output_paths_table join_slash_def)
  show ?thesis unfolding d using p by simp
qed

text \<open>
  C2: every path the render driver writes to the host's render file path, in a pass that
  completes or in one that aborts, is the base directory joined with a file name that is
  a marker's name followed by \<^verbatim>\<open>__angle_\<close>, the decimal heading of a table entry and
  \<^verbatim>\<open>.png\<close>. In a pass that completes the names are, marker by marker, the marker's
  name followed by \<^verbatim>\<open>__angle_0.png\<close>, \<^verbatim>\<open>__angle_45.png\<close>, ..., \<^verbatim>\<open>__angle_315.png\<close>.
\<close>

theorem output_path_format:
  "\<exists>evs. events (state_of (render_node_angles pj ok cam out nodes s)) = events s @ evs \<and>
     (\<forall>p\<in>set (filepath_writes evs). \<exists>nm\<in>fst ` set nodes. \<exists>h\<in>fst ` set ROTATION_ANGLES.
        p = pj out (nm @ ''__angle_'' @ str_int h @ ''.png'')) \<and>
     (completed (render_node_angles pj ok cam out nodes s) \<longrightarrow>
        filepath_writes evs =
          concat (map (\<lambda>(nm, loc). map (\<lambda>f. pj out (nm @ f))
            [''__angle_0.png'', ''__angle_45.png'', ''__angle_90.png'', ''__angle_135.png'',
             ''__angle_180.png'', ''__angle_225.png'', ''__angle_270.png'',
             ''__angle_315.png'']) nodes))"
proof -
  let ?r = "render_node_angles pj ok cam out nodes s"
  from node_loop_events_prefix[of pj ok cam out ROTATION_ANGLES nodes s] obtain evs where
    ev: "events (state_of ?r) = events s @ evs" and
    pre: "prefix evs (node_events pj out ROTATION_ANGLES nodes)"
    unfolding render_node_angles_def by blast
  have "\<exists>nm\<in>fst ` set nodes. \<exists>h\<in>fst ` set ROTATION_ANGLES.
          p = pj out (nm @ ''__angle_'' @ str_int h @ ''.png'')"
    if "p \<in> set (filepath_writes evs)" for p
  proof -
    from that filepath_writes_prefix[OF pre]
    have "p \<in> set (output_paths pj out ROTATION_ANGLES nodes)"
      by (auto simp: filepath_writes_node_events)
    from set_output_paths[OF this] show ?thesis
      by (simp add: output_file_def)
  qed
  moreover have "filepath_writes evs =
          concat (map (\<lambda>(nm, loc). map (\<lambda>f. pj out (nm @ f))
            [''__angle_0.png'', ''__angle_45.png'', ''__angle_90.png'', ''__angle_135.png'',
             ''__angle_180.png'', ''__angle_225.png'', ''__angle_270.png'',
             ''__angle_315.png'']) nodes)"
    if c: "completed ?r"
  proof -
    from c obtain s' where d: "node_loop pj ok cam out ROTATION_ANGLES nodes s = Done s'"
      unfolding render_node_angles_def
      by (cases "node_loop pj ok cam out ROTATION_ANGLES nodes s") simp_all
    from node_loop_Done[OF d] ev d have "evs = node_events pj out ROTATION_ANGLES nodes"
      by (simp add: render_node_angles_def)
    then show ?thesis
      by (simp only: filepath_writes_node_events output_paths_table)
  qed
  ultimately show ?thesis using ev by blast
qed

theorem output_path_format_witness:
  "completed (render_node_angles join_slash always_ok (Some 0) ''/tmp/out''
     [(''node1'', LocationOf 1)] two_node_scene) \<and>
   filepath_writes (events (state_of (render_node_angles join_slash always_ok (Some 0) ''/tmp/out''
     [(''node1'', LocationOf 1)] two_node_scene))) =
   [''/tmp/out/node1__angle_0.png'', ''/tmp/out/node1__angle_45.png'',
    ''/tmp/out/node1__angle_90.png'', ''/tmp/out/node1__angle_135.png'',
    ''/tmp/out/node1__angle_180.png'', ''/tmp/out/node1__angle_225.png'',
    ''/tmp/out/node1__angle_270.png'', ''/tmp/out/node1__angle_315.png'']"
proof -
  let ?r = "render_node_angles join_slash always_ok (Some 0) ''/tmp/out''
     [(''node1'', LocationOf 1)] two_node_scene"
  have c: "completed ?r"
    by (simp add: exec scenes)
  have e: "events two_node_scene = []"
    by (simp add: two_node_scene_def)
  from output_path_format[of join_slash always_ok "Some 0" "''/tmp/out''"
         "[(''node1'', LocationOf 1)]" two_node_scene]
  obtain evs where
    "events (state_of ?r) = events two_node_scene @ evs"
    "completed ?r \<longrightarrow> filepath_writes evs =
       concat (map (\<lambda>(nm, loc). map (\<lambda>f. join_slash ''/tmp/out'' (nm @ f))
            [''__angle_0.png'', ''__angle_45.png'', ''__angle_90.png'', ''__angle_135.png'',
             ''__angle_180.png'', ''__angle_225.png'', ''__angle_270.png'',
             ''__angle_315.png'']) [(''node1'', LocationOf 1)])"
    by blast
  with c e show ?thesis
    by (simp add: join_slash_def)
qed

text \<open>
  C7: the events of a pass of the render driver are an initial part of the expected
  sequence, and all of it when the pass completes: for each marker one write of the
  camera position, then for each table entry a write of the camera rotation, a write of
  the output path and the render. So the position is written once per marker, before the
  marker's angles and not again, and the rotation once per (marker, angle) pair, before
  that pair's render.
\<close>

theorem camera_writes_per_marker_and_angle:
  "(\<exists>evs. events (state_of (render_node_angles pj ok cam out nodes s)) = events s @ evs \<and>
      prefix evs (node_events pj out ROTATION_ANGLES nodes) \<and>
      (completed (render_node_angles pj ok cam out nodes s) \<longrightarrow>
         evs = node_events pj out ROTATION_ANGLES nodes)) \<and>
   length (filter is_location_write (node_events pj out ROTATION_ANGLES nodes)) = length nodes \<and>
   length (filter is_rotation_write (node_events pj out ROTATION_ANGLES nodes)) =
     length nodes * length ROTATION_ANGLES \<and>
   length (render_paths (node_events pj out ROTATION_ANGLES nodes)) =
     length nodes * length ROTATION_ANGLES"
proof -
  let ?r = "render_node_angles pj ok cam out nodes s"
  from node_loop_events_prefix[of pj ok cam out ROTATION_ANGLES nodes s] obtain evs where
    ev: "events (state_of ?r) = events s @ evs" and
    pre: "prefix evs (node_events pj out ROTATION_ANGLES nodes)"
    unfolding render_node_angles_def by blast
  have "evs = node_events pj out ROTATION_ANGLES nodes" if c: "completed ?r"
  proof -
    from c obtain s' where d: "node_loop pj ok cam out ROTATION_ANGLES nodes s = Done s'"
      unfolding render_node_angles_def
      by (cases "node_loop pj ok cam out ROTATION_ANGLES nodes s") simp_all
    from node_loop_Done[OF d] ev d show ?thesis
      by (simp add: render_node_angles_def)
  qed
  with ev pre show ?thesis
    by (auto simp: count_location_node_events count_rotation_node_events
                   render_paths_node_events length_output_paths)
qed

theorem camera_writes_per_marker_and_angle_witness:
  "completed (render_node_angles join_slash always_ok (Some 0) ''/tmp/out''
     [(''node1'', LocationOf 1), (''node2'', LocationOf 2)] two_node_scene) \<and>
   take 5 (events (state_of (render_node_angles join_slash always_ok (Some 0) ''/tmp/out''
     [(''node1'', LocationOf 1), (''node2'', LocationOf 2)] two_node_scene))) =
   [SetLocation (LocationOf 1),
    SetRotation [radians 90, radians 0, radians 0],
    SetFilepath ''/tmp/out/node1__angle_0.png'',
    Render ''/tmp/out/node1__angle_0.png'',
    SetRotation [radians 90, radians 0, radians (- 45)]] \<and>
   length (filter is_location_write (events (state_of (render_node_angles join_slash always_ok
     (Some 0) ''/tmp/out'' [(''node1'', LocationOf 1), (''node2'', LocationOf 2)]
     two_node_scene)))) = 2 \<and>
   length (filter is_rotation_write (events (state_of (render_node_angles join_slash always_ok
     (Some 0) ''/tmp/out'' [(''node1'', LocationOf 1), (''node2'', LocationOf 2)]
     two_node_scene)))) = 16"
proof -
  let ?nodes = "[(''node1'', LocationOf 1), (''node2'', LocationOf 2)]"
  let ?r = "render_node_angles join_slash always_ok (Some 0) ''/tmp/out'' ?nodes two_node_scene"
  let ?full = "node_events join_slash ''/tmp/out'' ROTATION_ANGLES ?nodes"
  have c: "completed ?r"
    by (simp add: exec scenes)
  have e: "events two_node_scene = []"
    by (simp add: two_node_scene_def)
  from camera_writes_per_marker_and_angle[of join_slash always_ok "Some 0" "''/tmp/out''"
         ?nodes two_node_scene]
  obtain evs where
    ev: "events (state_of ?r) = events two_node_scene @ evs" and
    full: "completed ?r \<longrightarrow> evs = ?full" and
    n: "length (filter is_location_write ?full) = length ?nodes"
       "length (filter is_rotation_write ?full) = length ?nodes * length ROTATION_ANGLES"
    by blast
  from ev full c e have eq: "events (state_of ?r) = ?full" by simp
  have t: "take 5 ?full =
   [SetLocation (LocationOf 1),
    SetRotation [radians 90, radians 0, radians 0],
    SetFilepath ''/tmp/out/node1__angle_0.png'',
    Render ''/tmp/out/node1__angle_0.png'',
    SetRotation [radians 90, radians 0, radians (- 45)]]"
    by (simp add: node_events_def angle_events_def ROTATION_ANGLES_def strings)
  have l: "length ROTATION_ANGLES = 8" by (simp add: ROTATION_ANGLES_def)
  from c t n show ?thesis unfolding eq by (simp add: l)
qed

section \<open>The whole script, in terms of the outer loop\<close>

lemma get_node_locations_Some:
  "collections s NODE_COLLECTION = Some ids \<Longrightarrow>
   get_node_locations s = Inr (nodes_of s ids)"
  by (simp add: get_node_locations_def nodes_of_def append_nodes_map)

lemma script_None:
  "collections s NODE_COLLECTION = None \<Longrightarrow> script pj ok s = Raised KeyError s"
  by (simp add: script_def run_def get_node_locations_def)

lemma script_Some:
  "collections s NODE_COLLECTION = Some ids \<Longrightarrow>
   script pj ok s =
     (case node_loop pj ok (camera s) (filepath s) ROTATION_ANGLES (nodes_of s ids) s of
        Raised e s' \<Rightarrow> Raised e s'
      | Done s' \<Rightarrow> Done (set_filepath (filepath s) s'))"
  by (simp add: script_def run_def get_node_locations_Some render_node_angles_def)

lemma state_of_script:
  "collections s NODE_COLLECTION = Some ids \<Longrightarrow>
   state_of (script pj ok s) =
     (if completed (node_loop pj ok (camera s) (filepath s) ROTATION_ANGLES (nodes_of s ids) s)
      then set_filepath (filepath s)
             (state_of (node_loop pj ok (camera s) (filepath s) ROTATION_ANGLES (nodes_of s ids) s))
      else state_of (node_loop pj ok (camera s) (filepath s) ROTATION_ANGLES (nodes_of s ids) s))"
  by (simp add: script_Some split: outcome.splits)

lemma script_collections:
  "collections (state_of (script pj ok s)) = collections s"
  by (cases "collections s NODE_COLLECTION")
     (simp_all add: script_None state_of_script set_filepath_def node_loop_collections)

lemma script_name:
  "name (objects (state_of (script pj ok s)) i) = name (objects s i)"
  by (cases "collections s NODE_COLLECTION")
     (simp_all add: script_None state_of_script set_filepath_def node_loop_name)

lemma script_other_objects:
  "camera s \<noteq> Some i \<Longrightarrow> objects (state_of (script pj ok s)) i = objects s i"
  by (cases "collections s NODE_COLLECTION")
     (simp_all add: script_None state_of_script set_filepath_def node_loop_other_objects)

lemma script_Done:
  assumes "script pj ok s = Done s'"
  shows "\<exists>ids. collections s NODE_COLLECTION = Some ids \<and>
           events s' = events s @ node_events pj (filepath s) ROTATION_ANGLES (nodes_of s ids)
                         @ [SetFilepath (filepath s)] \<and>
           dom (files s') = dom (files s) \<union>
                            set (output_paths pj (filepath s) ROTATION_ANGLES (nodes_of s ids)) \<and>
           filepath s' = filepath s"
proof (cases "collections s NODE_COLLECTION")
  case None
  with assms show ?thesis by (simp add: script_None)
next
  case (Some ids)
  let ?l = "node_loop pj ok (camera s) (filepath s) ROTATION_ANGLES (nodes_of s ids) s"
  from assms obtain s1 where l: "?l = Done s1" and s': "s' = set_filepath (filepath s) s1"
    unfolding script_Some[OF Some] by (cases ?l) auto
  from node_loop_Done[OF l] show ?thesis
    by (simp add: Some s' set_filepath_def render_paths_node_events)
qed

lemma nodes_of_script:
  "nodes_of (state_of (script pj ok s)) ids = nodes_of s ids"
  by (simp add: nodes_of_def script_name)

lemma new_events_append: "events s' = events s @ evs \<Longrightarrow> new_events s s' = evs"
  by (simp add: new_events_def)

lemma mem_render_paths: "Render p \<in> set evs \<Longrightarrow> p \<in> set (render_paths evs)"
  by (induction evs rule: render_paths.induct) auto

text \<open>
  C8: when the script completes and is then run again on the scene as the first run left
  it (same collection, same names, same base directory, the files of the first run on
  disk), and completes again, the second run invokes the renderer for exactly the same
  paths in the same order as the first. Every one of them exists already when the second
  run starts and is rendered all the same, and the set of files on disk afterwards is
  the set there was before: no path is skipped and none is new.
\<close>

theorem rerun_same_paths:
  "script pj ok s = Done s1 \<Longrightarrow> script pj ok' s1 = Done s2 \<Longrightarrow>
   render_paths (new_events s1 s2) = render_paths (new_events s s1) \<and>
   set (render_paths (new_events s1 s2)) \<subseteq> dom (files s1) \<and>
   dom (files s2) = dom (files s1)"
proof -
  assume r1: "script pj ok s = Done s1" and r2: "script pj ok' s1 = Done s2"
  from script_Done[OF r1] obtain ids where
    c1: "collections s NODE_COLLECTION = Some ids" and
    e1: "events s1 = events s @ node_events pj (filepath s) ROTATION_ANGLES (nodes_of s ids)
                       @ [SetFilepath (filepath s)]" and
    f1: "dom (files s1) = dom (files s) \<union>
           set (output_paths pj (filepath s) ROTATION_ANGLES (nodes_of s ids))" and
    p1: "filepath s1 = filepath s"
    by blast
  have "collections s1 = collections s"
    using script_collections[of pj ok s] by (simp add: r1)
  with c1 have c2: "collections s1 NODE_COLLECTION = Some ids" by simp
  have n2: "nodes_of s1 ids = nodes_of s ids"
    using nodes_of_script[of pj ok s ids] by (simp add: r1)
  from script_Done[OF r2] c2 have
    e2: "events s2 = events s1 @ node_events pj (filepath s) ROTATION_ANGLES (nodes_of s ids)
                       @ [SetFilepath (filepath s)]" and
    f2: "dom (files s2) = dom (files s1) \<union>
           set (output_paths pj (filepath s) ROTATION_ANGLES (nodes_of s ids))"
    by (simp_all add: p1 n2)
  have "render_paths (new_events s s1) =
          output_paths pj (filepath s) ROTATION_ANGLES (nodes_of s ids)"
    by (simp add: new_events_append[OF e1] render_paths_append render_paths_node_events)
  moreover have "render_paths (new_events s1 s2) =
          output_paths pj (filepath s) ROTATION_ANGLES (nodes_of s ids)"
    by (simp add: new_events_append[OF e2] render_paths_append render_paths_node_events)
  ultimately show ?thesis using f1 f2 by auto
qed

theorem rerun_same_paths_witness:
  "completed (script join_slash always_ok two_node_scene) \<and>
   completed (script join_slash always_ok
     (state_of (script join_slash always_ok two_node_scene))) \<and>
   render_paths (new_events (state_of (script join_slash always_ok two_node_scene))
     (state_of (script join_slash always_ok
        (state_of (script join_slash always_ok two_node_scene))))) =
   render_paths (new_events two_node_scene
     (state_of (script join_slash always_ok two_node_scene))) \<and>
   dom (files (state_of (script join_slash always_ok
        (state_of (script join_slash always_ok two_node_scene))))) =
   dom (files (state_of (script join_slash always_ok two_node_scene)))"
proof -
  let ?r1 = "script join_slash always_ok two_node_scene"
  let ?r2 = "script join_slash always_ok (state_of ?r1)"
  have c1: "completed ?r1"
    by (simp add: exec scenes)
  have c2: "completed ?r2"
    by (simp add: exec scenes)
  from c1 have d1: "?r1 = Done (state_of ?r1)" by (cases ?r1) simp_all
  from c2 have d2: "?r2 = Done (state_of ?r2)" by (cases ?r2) simp_all
  from rerun_same_paths[OF d1 d2] c1 c2 show ?thesis by simp
qed

text \<open>What a run that raised the renderer's fault has left behind.\<close>

lemma script_render_fault:
  "script pj ok s = Raised RuntimeError s' \<Longrightarrow> collections s NODE_COLLECTION = Some ids \<Longrightarrow>
   new_events s s' \<noteq> [] \<and>
   last (new_events s s') = Render (filepath s') \<and>
   prefix (new_events s s') (node_events pj (filepath s) ROTATION_ANGLES (nodes_of s ids)) \<and>
   filepath s' \<in> set (output_paths pj (filepath s) ROTATION_ANGLES (nodes_of s ids)) \<and>
   dom (files s') = dom (files s) \<union> set (render_paths (butlast (new_events s s')))"
proof -
  assume r: "script pj ok s = Raised RuntimeError s'"
    and c: "collections s NODE_COLLECTION = Some ids"
  let ?full = "node_events pj (filepath s) ROTATION_ANGLES (nodes_of s ids)"
  let ?l = "node_loop pj ok (camera s) (filepath s) ROTATION_ANGLES (nodes_of s ids) s"
  from r have l: "?l = Raised RuntimeError s'"
    unfolding script_Some[OF c] by (cases ?l) simp_all
  obtain cam where cam: "camera s = Some cam"
  proof (cases "camera s")
    case None
    with l show ?thesis
      by (cases "nodes_of s ids") (simp_all add: node_loop_None)
  next
    case (Some a)
    then show ?thesis by (rule that)
  qed
  from node_loop_Raised[OF l[unfolded cam]] obtain evs where
    ev: "events s' = events s @ evs @ [Render (filepath s')]" and
    pre: "prefix (evs @ [Render (filepath s')]) ?full" and
    fi: "dom (files s') = dom (files s) \<union> set (render_paths evs)"
    by blast
  from ev have ne: "new_events s s' = evs @ [Render (filepath s')]"
    by (simp add: new_events_def)
  from pre have "Render (filepath s') \<in> set ?full"
    using set_mono_prefix by fastforce
  then have "filepath s' \<in> set (output_paths pj (filepath s) ROTATION_ANGLES (nodes_of s ids))"
    using mem_render_paths by (fastforce simp: render_paths_node_events[symmetric])
  with pre fi show ?thesis
    by (simp add: ne)
qed

text \<open>
  C9, as amended: whatever the outcome of the run, the collections still hold the same
  objects, every object has the name it had, and every object other than the scene's
  active camera is unchanged, position included. The enumerator returns one entry per
  object of \<^verbatim>\<open>FPV_nodes\<close> in the host's order, holding the object's name and position.
  (The active camera is written by the driver; when it is itself linked into
  \<^verbatim>\<open>FPV_nodes\<close> it is a marker whose position changes.)
\<close>

theorem markers_other_than_camera_untouched:
  "collections (state_of (script pj ok s)) = collections s \<and>
   (\<forall>i. name (objects (state_of (script pj ok s)) i) = name (objects s i)) \<and>
   (\<forall>i. camera s \<noteq> Some i \<longrightarrow> objects (state_of (script pj ok s)) i = objects s i) \<and>
   (\<forall>ids. collections s NODE_COLLECTION = Some ids \<longrightarrow>
      get_node_locations s = Inr (map (\<lambda>i. (name (objects s i), LocationOf i)) ids) \<and>
      map (deref s \<circ> snd) (map (\<lambda>i. (name (objects s i), LocationOf i)) ids) =
        map (\<lambda>i. location (objects s i)) ids)"
  by (simp add: script_collections script_name script_other_objects get_node_locations_def
                append_nodes_map deref_def)

theorem markers_other_than_camera_untouched_witness:
  "camera two_node_scene \<noteq> Some 1 \<and>
   collections two_node_scene NODE_COLLECTION = Some [1, 2] \<and>
   completed (script join_slash always_ok two_node_scene) \<and>
   objects (state_of (script join_slash always_ok two_node_scene)) 1 = objects two_node_scene 1 \<and>
   get_node_locations two_node_scene = Inr [(''node1'', LocationOf 1), (''node2'', LocationOf 2)]"
proof -
  have h: "camera two_node_scene \<noteq> Some 1"
    by (simp add: two_node_scene_def)
  have c: "collections two_node_scene NODE_COLLECTION = Some [1, 2]"
    by (simp add: two_node_scene_def)
  have d: "completed (script join_slash always_ok two_node_scene)"
    by (simp add: exec scenes)
  have n: "name (objects two_node_scene 1) = ''node1''" "name (objects two_node_scene 2) = ''node2''"
    by (simp_all add: scenes)
  from markers_other_than_camera_untouched[of join_slash always_ok two_node_scene] h c
  have "objects (state_of (script join_slash always_ok two_node_scene)) 1 = objects two_node_scene 1"
    and "get_node_locations two_node_scene =
           Inr (map (\<lambda>i. (name (objects two_node_scene i), LocationOf i)) [1, 2])"
    by blast+
  with h c d n show ?thesis by simp
qed

text \<open>
  C9 as stated fails when the scene's active camera is itself linked into
  \<^verbatim>\<open>FPV_nodes\<close>: the camera is then one of the markers, and the run that completes
  leaves it at the position of the marker rendered last, not where it was.
\<close>

theorem markers_untouched_counterexample:
  "collections camera_in_nodes_scene NODE_COLLECTION = Some [0, 2] \<and>
   completed (script join_slash always_ok camera_in_nodes_scene) \<and>
   location (objects camera_in_nodes_scene 0) = (7, - 6, 5) \<and>
   location (objects (state_of (script join_slash always_ok camera_in_nodes_scene)) 0) = (5, 0, 0) \<and>
   location (objects (state_of (script join_slash always_ok camera_in_nodes_scene)) 0) \<noteq>
     location (objects camera_in_nodes_scene 0)"
  by (simp add: exec scenes)

section \<open>Which render fails first decides the outcome\<close>

lemma set_rotation_Some: "set_rotation (Some c) v s = Done (rotated c v s)"
  by (simp add: set_rotation_def rotated_def)

lemma set_location_Some: "set_location (Some c) v s = Done (located c v s)"
  by (simp add: set_location_def located_def)

lemma render_outcome:
  "camera s = Some c \<Longrightarrow>
   render ok s = (if ok s then Done (rendered c s) else Raised RuntimeError (failed s))"
  by (simp add: render_def rendered_def failed_def Let_def)

lemma camera_steps:
  "camera (rotated c v s) = camera s"
  "camera (located c l s) = camera s"
  "camera (rendered c s) = camera s"
  "camera (set_filepath p s) = camera s"
  by (simp_all add: rotated_def located_def rendered_def set_filepath_def)

lemma camera_angle_after:
  "camera (angle_after pj c out nm tbl s) = camera s"
  by (induction tbl arbitrary: s) (auto simp: camera_steps)

lemma camera_node_after:
  "camera (node_after pj c out tbl nodes s) = camera s"
  by (induction nodes arbitrary: s) (auto simp: camera_steps camera_angle_after)

lemma angle_loop_outcome:
  "camera s = Some c \<Longrightarrow>
   angle_loop pj ok (Some c) out nm tbl s =
     (case dropWhile ok (angle_renders pj c out nm tbl s) of
        [] \<Rightarrow> Done (angle_after pj c out nm tbl s)
      | t # ts \<Rightarrow> Raised RuntimeError (failed t))"
proof (induction tbl arbitrary: s)
  case Nil
  show ?case by simp
next
  case (Cons kv tbl)
  obtain k v where kv: "kv = (k, v)" by (cases kv)
  let ?t = "set_filepath (pj out (output_file nm k)) (rotated c v s)"
  have ct: "camera ?t = Some c" using Cons.prems by (simp add: camera_steps)
  show ?case
  proof (cases "ok ?t")
    case True
    have "camera (rendered c ?t) = Some c" using ct by (simp add: camera_steps)
    from Cons.IH[OF this] True show ?thesis
      unfolding kv
      by (simp add: set_rotation_Some render_outcome[OF ct] cong: list.case_cong)
  next
    case False
    then show ?thesis
      unfolding kv
      by (simp add: set_rotation_Some render_outcome[OF ct])
  qed
qed

lemma node_loop_outcome:
  "camera s = Some c \<Longrightarrow>
   node_loop pj ok (Some c) out tbl nodes s =
     (case dropWhile ok (node_renders pj c out tbl nodes s) of
        [] \<Rightarrow> Done (node_after pj c out tbl nodes s)
      | t # ts \<Rightarrow> Raised RuntimeError (failed t))"
proof (induction nodes arbitrary: s)
  case Nil
  show ?case by simp
next
  case (Cons n nodes)
  obtain nm loc where n: "n = (nm, loc)" by (cases n)
  let ?s1 = "located c loc s"
  let ?xs = "angle_renders pj c out nm tbl ?s1"
  let ?s2 = "angle_after pj c out nm tbl ?s1"
  let ?ys = "node_renders pj c out tbl nodes ?s2"
  have c1: "camera ?s1 = Some c" using Cons.prems by (simp add: camera_steps)
  have c2: "camera ?s2 = Some c" using c1 by (simp add: camera_angle_after)
  show ?case
  proof (cases "dropWhile ok ?xs")
    case Nil
    then have "\<forall>x\<in>set ?xs. ok x" by simp
    then have d: "dropWhile ok (?xs @ ?ys) = dropWhile ok ?ys" by simp
    from Cons.IH[OF c2] show ?thesis
      unfolding n
      by (simp add: set_location_Some angle_loop_outcome[OF c1] Nil d cong: list.case_cong)
  next
    case (Cons t ts)
    then have "dropWhile ok ?xs \<noteq> []" by simp
    then obtain x where "x \<in> set ?xs" "\<not> ok x" by auto
    then have "dropWhile ok (?xs @ ?ys) = dropWhile ok ?xs @ ?ys" by (rule dropWhile_append1)
    then show ?thesis
      unfolding n
      by (simp add: set_location_Some angle_loop_outcome[OF c1] Cons)
  qed
qed

lemma outcome_of_first_failure:
  "(case (case l of [] \<Rightarrow> Done x | t # ts \<Rightarrow> Raised e (f t)) of
      Raised e s' \<Rightarrow> Raised e s' | Done s' \<Rightarrow> Done (g s')) =
   (case l of [] \<Rightarrow> Done (g x) | t # ts \<Rightarrow> Raised e (f t))"
  by (cases l) simp_all

lemma script_outcome:
  "collections s NODE_COLLECTION = Some ids \<Longrightarrow> camera s = Some c \<Longrightarrow>
   script pj ok s =
     (case dropWhile ok (render_invocations pj c ids s) of
        [] \<Rightarrow> Done (set_filepath (filepath s)
                      (node_after pj c (filepath s) ROTATION_ANGLES (nodes_of s ids) s))
      | t # ts \<Rightarrow> Raised RuntimeError (failed t))"
  by (simp add: script_Some node_loop_outcome render_invocations_def outcome_of_first_failure)

lemma filepath_angle_renders:
  "map filepath (angle_renders pj c out nm tbl s) = map (\<lambda>(k, v). pj out (output_file nm k)) tbl"
  by (induction tbl arbitrary: s) (auto simp: set_filepath_def)

lemma filepath_node_renders:
  "map filepath (node_renders pj c out tbl nodes s) = output_paths pj out tbl nodes"
  by (induction nodes arbitrary: s) (auto simp: filepath_angle_renders output_paths_Cons output_paths_def)

lemma filepath_render_invocations:
  "map filepath (render_invocations pj c ids s) =
     output_paths pj (filepath s) ROTATION_ANGLES (nodes_of s ids)"
  by (simp add: render_invocations_def filepath_node_renders)

text \<open>
  C6: take a scene with the collection and an active camera, and the render invocations
  the script makes as long as none fails. If the renderer fails at any of them, then at
  the first one \<open>t\<close> at which it fails the script raises the renderer's fault at once,
  in the state the failed invocation leaves: the failed render is the last event, the
  events up to it are an initial part of the expected sequence, so nothing follows it
  and the render file path is not written again. The render file path is still the one
  set for the failing iteration, the output path of its (marker, angle) pair, and the
  files on disk are those there were before together with those rendered by the earlier
  iterations. The invocations are made, in order, with the render file path set to the
  successive output paths.
\<close>

theorem render_failure_propagates:
  "collections s NODE_COLLECTION = Some ids \<Longrightarrow> camera s = Some c \<Longrightarrow>
   x \<in> set (render_invocations pj c ids s) \<Longrightarrow> \<not> ok x \<Longrightarrow>
   (let t = hd (dropWhile ok (render_invocations pj c ids s)) in
      t \<in> set (render_invocations pj c ids s) \<and> \<not> ok t \<and>
      script pj ok s = Raised RuntimeError (failed t) \<and>
      filepath (failed t) = filepath t \<and>
      filepath t \<in> set (output_paths pj (filepath s) ROTATION_ANGLES (nodes_of s ids)) \<and>
      new_events s (failed t) \<noteq> [] \<and>
      last (new_events s (failed t)) = Render (filepath t) \<and>
      prefix (new_events s (failed t))
        (node_events pj (filepath s) ROTATION_ANGLES (nodes_of s ids)) \<and>
      dom (files (failed t)) =
        dom (files s) \<union> set (render_paths (butlast (new_events s (failed t)))) \<and>
      map filepath (render_invocations pj c ids s) =
        output_paths pj (filepath s) ROTATION_ANGLES (nodes_of s ids))"
proof -
  assume c: "collections s NODE_COLLECTION = Some ids" and cam: "camera s = Some c"
    and x: "x \<in> set (render_invocations pj c ids s)" "\<not> ok x"
  let ?rs = "render_invocations pj c ids s"
  let ?t = "hd (dropWhile ok ?rs)"
  from x have ne: "dropWhile ok ?rs \<noteq> []" by auto
  then obtain t ts where dt: "dropWhile ok ?rs = t # ts"
    by (cases "dropWhile ok ?rs") simp_all
  from ne have nok: "\<not> ok ?t" by (rule hd_dropWhile)
  from ne have "?t \<in> set (dropWhile ok ?rs)" by simp
  then have mem: "?t \<in> set ?rs" by (rule set_dropWhileD)
  have r: "script pj ok s = Raised RuntimeError (failed ?t)"
    unfolding script_outcome[OF c cam] dt by simp
  have fp: "filepath (failed ?t) = filepath ?t" by (simp add: failed_def)
  from script_render_fault[OF r c] mem nok r fp show ?thesis
    by (simp add: Let_def filepath_render_invocations)
qed

theorem render_failure_propagates_witness:
  "collections two_node_scene NODE_COLLECTION = Some [1, 2] \<and>
   camera two_node_scene = Some 0 \<and>
   hd (dropWhile (fails_at ''/tmp/out/node2__angle_0.png'')
         (render_invocations join_slash 0 [1, 2] two_node_scene))
     \<in> set (render_invocations join_slash 0 [1, 2] two_node_scene) \<and>
   \<not> fails_at ''/tmp/out/node2__angle_0.png''
       (hd (dropWhile (fails_at ''/tmp/out/node2__angle_0.png'')
         (render_invocations join_slash 0 [1, 2] two_node_scene))) \<and>
   fault (script join_slash (fails_at ''/tmp/out/node2__angle_0.png'') two_node_scene) =
     Some RuntimeError \<and>
   filepath (state_of (script join_slash (fails_at ''/tmp/out/node2__angle_0.png'')
     two_node_scene)) = ''/tmp/out/node2__angle_0.png'' \<and>
   render_paths (events (state_of (script join_slash (fails_at ''/tmp/out/node2__angle_0.png'')
     two_node_scene))) =
   [''/tmp/out/node1__angle_0.png'', ''/tmp/out/node1__angle_45.png'',
    ''/tmp/out/node1__angle_90.png'', ''/tmp/out/node1__angle_135.png'',
    ''/tmp/out/node1__angle_180.png'', ''/tmp/out/node1__angle_225.png'',
    ''/tmp/out/node1__angle_270.png'', ''/tmp/out/node1__angle_315.png'',
    ''/tmp/out/node2__angle_0.png'']"
proof -
  let ?ok = "fails_at ''/tmp/out/node2__angle_0.png''"
  let ?rs = "render_invocations join_slash 0 [1, 2] two_node_scene"
  let ?r = "script join_slash ?ok two_node_scene"
  have c: "collections two_node_scene NODE_COLLECTION = Some [1, 2]"
    by (simp add: two_node_scene_def)
  have cam: "camera two_node_scene = Some 0"
    by (simp add: two_node_scene_def)
  have "''/tmp/out/node2__angle_0.png'' \<in> set (map filepath ?rs)"
    unfolding filepath_render_invocations output_paths_table
    by (simp add: nodes_of_def scenes join_slash_def)
  then obtain x where x: "x \<in> set ?rs" "\<not> ?ok x"
    by (auto simp: fails_at_def)
  then have ne: "dropWhile ?ok ?rs \<noteq> []" by auto
  from ne have nok: "\<not> ?ok (hd (dropWhile ?ok ?rs))" by (rule hd_dropWhile)
  from ne have "hd (dropWhile ?ok ?rs) \<in> set (dropWhile ?ok ?rs)" by simp
  then have mem: "hd (dropWhile ?ok ?rs) \<in> set ?rs" by (rule set_dropWhileD)
  from render_failure_propagates[of two_node_scene "[1, 2]" 0 _ join_slash ?ok, OF c cam mem nok]
  have "?r = Raised RuntimeError (failed (hd (dropWhile ?ok ?rs)))"
    by (simp add: Let_def)
  then have f: "fault ?r = Some RuntimeError" by simp
  have p: "filepath (state_of ?r) = ''/tmp/out/node2__angle_0.png''"
    by (simp add: exec scenes strings fails_at_def)
  have q: "render_paths (events (state_of ?r)) =
   [''/tmp/out/node1__angle_0.png'', ''/tmp/out/node1__angle_45.png'',
    ''/tmp/out/node1__angle_90.png'', ''/tmp/out/node1__angle_135.png'',
    ''/tmp/out/node1__angle_180.png'', ''/tmp/out/node1__angle_225.png'',
    ''/tmp/out/node1__angle_270.png'', ''/tmp/out/node1__angle_315.png'',
    ''/tmp/out/node2__angle_0.png'']"
    by (simp add: exec scenes strings fails_at_def)
  from c cam mem nok f p q show ?thesis by blast
qed

end
